theory Spec2Isabelle
  imports Complex_Main "HOL-Library.Char_ord" "HOL-Library.List_Lexorder"
begin

section \<open>Data model (types/activity.ts)\<close>

text \<open>
  The interfaces of the client become records. Field names are the source's, except
  where Isabelle needs them apart: \<open>id\<close> is \<open>p_id\<close> in \<open>Person\<close> and \<open>event_id\<close> in
  \<open>ActivityEvent\<close>, \<open>count\<close> is \<open>count_n\<close>, the \<open>timestamp\<close> and \<open>date\<close> of a
  \<open>FirstTouchpoint\<close> are \<open>tp_timestamp\<close> and \<open>tp_date\<close>, and the \<open>events\<close> and
  \<open>persons\<close> of an \<open>ApiResponse\<close> are \<open>resp_events\<close> and \<open>resp_persons\<close> (the
  component state has cells of the same names). JavaScript numbers that hold counts,
  page numbers and indices are \<open>int\<close>; pixel positions are \<open>real\<close>, the arithmetic of
  the source read exactly. A \<open>Record<string, Person>\<close> is a map from strings.
\<close>

datatype Direction = IN | OUT

record Person =
  p_id :: string
  first_name :: string
  last_name :: string
  email_address :: string
  job_title :: "string option"

record ActivityEvent =
  event_id :: int
  timestamp :: string
  activity :: string
  channel :: string
  status :: string
  direction :: Direction
  people :: "Person list"
  involved_team_ids :: "string list"

record TimelineDataPoint =
  date :: string
  count_n :: int

record FirstTouchpoint =
  person_id :: string
  tp_timestamp :: string
  tp_date :: string

record Pagination =
  current_page :: int
  total_pages :: int
  total_count :: int
  has_next :: bool
  has_previous :: bool

record ApiResponse =
  resp_events :: "ActivityEvent list"
  resp_persons :: "string \<rightharpoonup> Person"
  pagination :: Pagination

section \<open>Marker projection (ActivityMinimap, touchpointMarkers)\<close>

text \<open>
  A marker is the touchpoint spread into a new object together with its pixel position
  (\<open>{...touchpoint, x: position}\<close>): \<open>m_person_id\<close>, \<open>m_timestamp\<close> and \<open>m_date\<close>
  are the touchpoint's fields, \<open>marker_x\<close> is \<open>x\<close>.
\<close>

record TouchpointMarker =
  m_person_id :: string
  m_timestamp :: string
  m_date :: string
  marker_x :: real

text \<open>\<open>Array.prototype.findIndex\<close>: the first index whose element satisfies the
  predicate, \<open>-1\<close> when there is none.\<close>

primrec findIndex :: "('a \<Rightarrow> bool) \<Rightarrow> 'a list \<Rightarrow> int" where
  "findIndex P [] = - 1"
| "findIndex P (a # as) =
     (if P a then 0
      else (let i = findIndex P as in if i < 0 then - 1 else i + 1))"

text \<open>\<open>chartRef.current?.clientWidth || 800\<close>: the argument is \<open>None\<close> while the ref is
  not attached; a width of \<open>0\<close> is falsy and gives the default as well.\<close>

definition chartWidth_of :: "nat option \<Rightarrow> real" where
  "chartWidth_of clientWidth =
     (case clientWidth of
        None \<Rightarrow> 800
      | Some w \<Rightarrow> if w = 0 then 800 else real w)"

definition padding :: real where
  "padding = 60"

text \<open>
  \<open>chartData\<close> is \<open>timelineData\<close> with two display fields added to every point; the
  projection reads the length of the array and the \<open>date\<close> of its points only, so the
  model passes the points themselves.
\<close>

definition touchpointMarkers ::
  "nat option \<Rightarrow> TimelineDataPoint list \<Rightarrow> FirstTouchpoint list \<Rightarrow> TouchpointMarker list" where
  "touchpointMarkers clientWidth chartData firstTouchpoints =
     (if length chartData = 0 then []
      else
        (let chartWidth = chartWidth_of clientWidth;
             availableWidth = chartWidth - padding * 2
         in map (\<lambda>touchpoint.
              (let dateIndex = findIndex (\<lambda>d. date d = tp_date touchpoint) chartData;
                   position =
                     (if dateIndex \<ge> 0 \<and> length chartData > 1
                      then (real_of_int dateIndex / real (length chartData - 1)) * availableWidth
                           + padding
                      else 0)
               in \<lparr> m_person_id = person_id touchpoint,
                    m_timestamp = tp_timestamp touchpoint,
                    m_date = tp_date touchpoint,
                    marker_x = position \<rparr>))
            firstTouchpoints))"

text \<open>Fixtures: a two-bucket and a one-bucket axis, and touchpoints on and off the axis.\<close>

definition axis2 :: "TimelineDataPoint list" where
  "axis2 = [\<lparr> date = ''2024-01-10'', count_n = 1 \<rparr>, \<lparr> date = ''2024-01-15'', count_n = 1 \<rparr>]"

definition axis1 :: "TimelineDataPoint list" where
  "axis1 = [\<lparr> date = ''2024-01-10'', count_n = 1 \<rparr>]"

definition touchpoint_on :: "string \<Rightarrow> string \<Rightarrow> FirstTouchpoint" where
  "touchpoint_on p d = \<lparr> person_id = p, tp_timestamp = d @ ''T10:00:00Z'', tp_date = d \<rparr>"

section \<open>Date gaps (lib/utils.ts, calculateDateGap)\<close>

text \<open>
  \<open>calculateDateGap\<close> hands both timestamps to \<open>parseISO\<close> and the two dates to
  \<open>differenceInDays\<close>, both of the date-fns library, which is not part of the repository.
  The library works on what a date reads in the viewer's time zone: the local calendar
  day (here a day number) and the time within that day in milliseconds. Two things of
  the library and the engine are parameters of the model:
  \<^item> \<open>parseISO\<close>, from a timestamp to its local reading, \<open>None\<close> for date-fns' Invalid
    Date;
  \<^item> \<open>resolveLocal\<close>, what the engine makes of a local day and time of day asked for by
    \<open>Date.prototype.setDate\<close>: the same local time where the zone has it, a later one
    where a clock change skips it.

  \<open>differenceInDays\<close> follows the library's algorithm: the sign of the comparison of the
  local readings, the difference in calendar days, the left date moved by that many days
  with \<open>setDate\<close>, and one day less when the last day is not full. A JavaScript number
  that can be \<open>NaN\<close> is an \<open>int option\<close>.
\<close>

record LocalDate =
  dayNumber :: int
  msOfDay :: int




definition compareLocalAsc :: "LocalDate \<Rightarrow> LocalDate \<Rightarrow> int" where
  "compareLocalAsc dateLeft dateRight =
     (let diff = (if dayNumber dateLeft - dayNumber dateRight \<noteq> 0
                  then dayNumber dateLeft - dayNumber dateRight
                  else msOfDay dateLeft - msOfDay dateRight)
      in if diff < 0 then - 1 else if diff > 0 then 1 else diff)"

definition differenceInCalendarDays :: "LocalDate \<Rightarrow> LocalDate \<Rightarrow> int" where
  "differenceInCalendarDays dateLeft dateRight = dayNumber dateLeft - dayNumber dateRight"

text \<open>\<open>date.setDate(date.getDate() - n)\<close>.\<close>

definition setDateBack :: "(LocalDate \<Rightarrow> LocalDate) \<Rightarrow> LocalDate \<Rightarrow> int \<Rightarrow> LocalDate" where
  "setDateBack resolveLocal d n = resolveLocal (d \<lparr> dayNumber := dayNumber d - n \<rparr>)"

definition differenceInDays ::
  "(LocalDate \<Rightarrow> LocalDate) \<Rightarrow> LocalDate \<Rightarrow> LocalDate \<Rightarrow> int" where
  "differenceInDays resolveLocal dateLeft dateRight =
     (let sign = compareLocalAsc dateLeft dateRight;
          difference = \<bar>differenceInCalendarDays dateLeft dateRight\<bar>;
          moved = setDateBack resolveLocal dateLeft (sign * difference);
          isLastDayNotFull = (if compareLocalAsc moved dateRight = - sign then 1 else 0);
          result = sign * (difference - isLastDayNotFull)
      in result)"

definition calculateDateGap ::
  "(string \<Rightarrow> LocalDate option) \<Rightarrow> (LocalDate \<Rightarrow> LocalDate) \<Rightarrow> string \<Rightarrow> string
     \<Rightarrow> int option" where
  "calculateDateGap parseISO resolveLocal currentDate previousDate =
     (case (parseISO currentDate, parseISO previousDate) of
        (Some current, Some previous) \<Rightarrow> Some (differenceInDays resolveLocal current previous)
      | _ \<Rightarrow> None)"

text \<open>
  An instance of the two parameters for concrete inputs: a viewer whose zone is UTC. No
  local time is skipped there, and \<open>parseISO_utc\<close> reads the two forms of timestamp that
  the server and the repository's fixtures use, \<open>YYYY-MM-DDTHH:MM:SSZ\<close> and
  \<open>YYYY-MM-DDTHH:MM:SS.mmmZ\<close>. As in date-fns, a month outside 1 to 12, a day the month
  does not have, or a time outside the day (24:00:00 apart, which is the next midnight)
  gives Invalid Date. date-fns reads further forms of ISO 8601 (dates without a time,
  numeric offsets, other fraction lengths); they are left out here, so on them
  \<open>None\<close> is not the library's answer. The day number counts days of the proleptic
  Gregorian calendar from 1970-01-01.
\<close>

definition utcZone :: "LocalDate \<Rightarrow> LocalDate" where
  "utcZone d = d"

definition isDigit :: "char \<Rightarrow> bool" where
  "isDigit c \<longleftrightarrow> CHR ''0'' \<le> c \<and> c \<le> CHR ''9''"

definition digitsToInt :: "string \<Rightarrow> int" where
  "digitsToInt s = foldl (\<lambda>a c. 10 * a + (int (of_char c) - 48)) 0 s"

definition isLeapYear :: "int \<Rightarrow> bool" where
  "isLeapYear y = (if y mod 100 = 0 then y mod 400 = 0 else y mod 4 = 0)"

definition daysInMonth :: "int \<Rightarrow> int \<Rightarrow> int" where
  "daysInMonth y m =
     (if m = 2 then (if isLeapYear y then 29 else 28)
      else if m = 4 \<or> m = 6 \<or> m = 9 \<or> m = 11 then 30 else 31)"

definition daysFromCivil :: "int \<Rightarrow> int \<Rightarrow> int \<Rightarrow> int" where
  "daysFromCivil y m d =
     (let y1 = (if m \<le> 2 then y - 1 else y);
          era = y1 div 400;
          yoe = y1 - era * 400;
          doy = (153 * (if m > 2 then m - 3 else m + 9) + 2) div 5 + d - 1;
          doe = yoe * 365 + yoe div 4 - yoe div 100 + doy
      in era * 146097 + doe - 719468)"

definition parseISO_utc :: "string \<Rightarrow> LocalDate option" where
  "parseISO_utc s =
     (let n = length s;
          shape = ((n = 20 \<or> n = 24)
                   \<and> s ! 4 = CHR ''-'' \<and> s ! 7 = CHR ''-'' \<and> s ! 10 = CHR ''T''
                   \<and> s ! 13 = CHR '':'' \<and> s ! 16 = CHR '':'' \<and> s ! (n - 1) = CHR ''Z''
                   \<and> list_all isDigit (take 4 s @ take 2 (drop 5 s) @ take 2 (drop 8 s)
                        @ take 2 (drop 11 s) @ take 2 (drop 14 s) @ take 2 (drop 17 s))
                   \<and> (if n = 24
                       then s ! 19 = CHR ''.'' \<and> list_all isDigit (take 3 (drop 20 s))
                       else True));
          y = digitsToInt (take 4 s);
          m = digitsToInt (take 2 (drop 5 s));
          d = digitsToInt (take 2 (drop 8 s));
          h = digitsToInt (take 2 (drop 11 s));
          mi = digitsToInt (take 2 (drop 14 s));
          se = digitsToInt (take 2 (drop 17 s));
          ms = (if n = 24 then digitsToInt (take 3 (drop 20 s)) else 0)
      in if shape \<and> 1 \<le> m \<and> m \<le> 12 \<and> 1 \<le> d \<and> d \<le> daysInMonth y m
            \<and> mi < 60 \<and> se < 60
            \<and> (if h = 24 then mi = 0 \<and> se = 0 \<and> ms = 0 else h < 24)
         then Some (if h = 24
                    then \<lparr> dayNumber = daysFromCivil y m d + 1, msOfDay = 0 \<rparr>
                    else \<lparr> dayNumber = daysFromCivil y m d,
                           msOfDay = ((h * 60 + mi) * 60 + se) * 1000 + ms \<rparr>)
         else None)"

section \<open>Timeline table: row rendering (ActivityTimelineTable)\<close>









definition event_at :: "int \<Rightarrow> string \<Rightarrow> ActivityEvent" where
  "event_at n ts = \<lparr> event_id = n, timestamp = ts, activity = ''Email sent to customer'',
     channel = ''EMAIL'', status = ''SENT'', direction = OUT, people = [],
     involved_team_ids = [''SALES''] \<rparr>"



section \<open>Timeline table: loading state (ActivityTimelineTable, loadEvents)\<close>

text \<open>The component's \<open>useState\<close> cells.\<close>

record TableState =
  events :: "ActivityEvent list"
  persons :: "string \<rightharpoonup> Person"
  loading :: bool
  loadingMore :: bool
  hasNext :: bool
  currentPage :: int
  error :: "string option"

definition initialTable :: TableState where
  "initialTable = \<lparr> events = [], persons = Map.empty, loading = True, loadingMore = False,
     hasNext = False, currentPage = 1, error = None \<rparr>"

text \<open>The arguments of one call \<open>loadEvents(page, targetDate, append)\<close>; the fetch it
  makes is \<open>fetchActivityEvents(page, 50, targetDate)\<close>. No other datum travels with a
  fetch.\<close>

record FetchRequest =
  req_page :: int
  req_targetDate :: "string option"
  req_append :: bool

text \<open>What a rejected fetch throws: an \<open>Error\<close> with its message, or any other value.\<close>

datatype Thrown = ErrorInstance string | OtherValue

text \<open>\<open>loadEvents\<close> up to its \<open>await\<close>.\<close>

definition loadEvents_begin :: "FetchRequest \<Rightarrow> TableState \<Rightarrow> TableState" where
  "loadEvents_begin req st =
     (if \<not> req_append req then st \<lparr> loading := True \<rparr> else st \<lparr> loadingMore := True \<rparr>)"

text \<open>\<open>loadEvents\<close> from the \<open>await\<close> on: the \<open>try\<close> body after a response, the
  \<open>catch\<close> after a rejection, then \<open>finally\<close>. The state is the one current when the
  fetch settles (the updaters of \<open>setEvents\<close> and \<open>setPersons\<close> are functional).\<close>

definition loadEvents_settle ::
  "FetchRequest \<Rightarrow> Thrown + ApiResponse \<Rightarrow> TableState \<Rightarrow> TableState" where
  "loadEvents_settle req outcome st =
     (let st1 =
        (case outcome of
           Inr response \<Rightarrow>
             st \<lparr> events := (if req_append req then events st @ resp_events response
                             else resp_events response),
                  persons := persons st ++ resp_persons response,
                  hasNext := has_next (pagination response),
                  currentPage := current_page (pagination response),
                  error := None \<rparr>
         | Inl err \<Rightarrow>
             st \<lparr> error := Some (case err of ErrorInstance m \<Rightarrow> m
                                  | OtherValue \<Rightarrow> ''Failed to load events'') \<rparr>)
      in st1 \<lparr> loading := False, loadingMore := False \<rparr>)"

text \<open>The request the Retry button of the error screen makes: \<open>loadEvents(1)\<close>, with the
  defaults \<open>targetDate = undefined\<close> and \<open>append = false\<close>.\<close>

definition retryRequest :: FetchRequest where
  "retryRequest = \<lparr> req_page = 1, req_targetDate = None, req_append = False \<rparr>"

text \<open>The first element of \<open>s.split('T')\<close>.\<close>

definition split_T_first :: "string \<Rightarrow> string" where
  "split_T_first s = takeWhile (\<lambda>c. c \<noteq> CHR ''T'') s"

text \<open>The visible-range effect: the arguments it passes to \<open>onVisibleRangeChange\<close>, or
  \<open>None\<close> when it makes no call.\<close>

definition visibleRangeEffect :: "ActivityEvent list \<Rightarrow> (string \<times> string) option" where
  "visibleRangeEffect evs =
     (if length evs > 0 then
        (let firstEvent = evs ! 0;
             lastEvent = evs ! (length evs - 1);
             startDate = split_T_first (timestamp lastEvent);
             endDate = split_T_first (timestamp firstEvent)
         in Some (startDate, endDate))
      else None)"

text \<open>An ISO-8601 timestamp as the server sends it: ten characters of date, then \<open>T\<close>.
  Its calendar date is the ten-character prefix.\<close>

definition isoTimestamp :: "string \<Rightarrow> bool" where
  "isoTimestamp s \<longleftrightarrow> length s > 10 \<and> s ! 10 = CHR ''T'' \<and> CHR ''T'' \<notin> set (take 10 s)"

definition calendarDate :: "string \<Rightarrow> string" where
  "calendarDate s = take 10 s"

section \<open>Page component (app/page.tsx) and the effects of the table\<close>

record HomeState =
  visibleStartDate :: string
  visibleEndDate :: string
  navigateToDate :: string

definition handleVisibleRangeChange :: "string \<Rightarrow> string \<Rightarrow> HomeState \<Rightarrow> HomeState" where
  "handleVisibleRangeChange startDate endDate h =
     h \<lparr> visibleStartDate := startDate, visibleEndDate := endDate \<rparr>"

definition handleDateClick :: "string \<Rightarrow> HomeState \<Rightarrow> HomeState" where
  "handleDateClick d h = h \<lparr> navigateToDate := d \<rparr>"

definition handleNavigationComplete :: "HomeState \<Rightarrow> HomeState" where
  "handleNavigationComplete h = h \<lparr> navigateToDate := '''' \<rparr>"

text \<open>
  The running page: the state of \<open>Home\<close>, the state of the table, whether the scroll
  sentinel is in view (reported by the intersection observer), the fetches that are
  issued and not settled (oldest first), and two logs: every fetch issued so far and
  every call of \<open>onVisibleRangeChange\<close> so far.
\<close>

record App =
  home :: HomeState
  table :: TableState
  inView :: bool
  pending :: "FetchRequest list"
  issued :: "FetchRequest list"
  rangeCalls :: "(string \<times> string) list"

definition initialApp :: App where
  "initialApp = \<lparr> home = \<lparr> visibleStartDate = '''', visibleEndDate = '''', navigateToDate = '''' \<rparr>,
     table = initialTable, inView = False, pending = [], issued = [], rangeCalls = [] \<rparr>"

text \<open>A call of \<open>loadEvents\<close>: it runs to its \<open>await\<close> and leaves the fetch pending.\<close>

definition callLoadEvents :: "FetchRequest \<Rightarrow> App \<Rightarrow> App" where
  "callLoadEvents req a =
     a \<lparr> table := loadEvents_begin req (table a),
         pending := pending a @ [req],
         issued := issued a @ [req] \<rparr>"

text \<open>
  The bodies of the effects. An effect reads the values of the render it belongs to
  (\<open>snap\<close>) and its state updates go to the state being built (\<open>acc\<close>).
\<close>

definition navigationEffect :: "App \<Rightarrow> App \<Rightarrow> App" where
  "navigationEffect snap acc =
     (if navigateToDate (home snap) \<noteq> '''' then
        (let a1 = callLoadEvents \<lparr> req_page = 1,
                                   req_targetDate = Some (navigateToDate (home snap)),
                                   req_append = False \<rparr> acc
         in a1 \<lparr> home := handleNavigationComplete (home a1) \<rparr>)
      else acc)"

definition infiniteScrollEffect :: "App \<Rightarrow> App \<Rightarrow> App" where
  "infiniteScrollEffect snap acc =
     (if inView snap \<and> hasNext (table snap) \<and> \<not> loading (table snap)
         \<and> \<not> loadingMore (table snap)
      then callLoadEvents \<lparr> req_page = currentPage (table snap) + 1,
                            req_targetDate = None,
                            req_append = True \<rparr> acc
      else acc)"

definition visibleRangeSync :: "App \<Rightarrow> App \<Rightarrow> App" where
  "visibleRangeSync snap acc =
     (case visibleRangeEffect (events (table snap)) of
        None \<Rightarrow> acc
      | Some (startDate, endDate) \<Rightarrow>
          acc \<lparr> home := handleVisibleRangeChange startDate endDate (home acc),
                rangeCalls := rangeCalls acc @ [(startDate, endDate)] \<rparr>)"

text \<open>The dependencies of the infinite-scroll effect that can change (\<open>loadEvents\<close> and
  the callbacks of \<open>Home\<close> are stable: \<open>useCallback\<close> with no dependencies).\<close>

definition scrollDeps :: "App \<Rightarrow> bool \<times> bool \<times> bool \<times> bool \<times> int" where
  "scrollDeps a =
     (inView a, hasNext (table a), loading (table a), loadingMore (table a),
      currentPage (table a))"

text \<open>
  One commit: after the render of \<open>cur\<close>, which follows the render of \<open>prev\<close>, the
  effects whose dependencies changed run in the order they are declared. The events array
  is compared by identity, so \<open>eventsReplaced\<close> tells whether \<open>setEvents\<close> installed a
  new array.
\<close>

definition commitEffects :: "App \<Rightarrow> bool \<Rightarrow> App \<Rightarrow> App" where
  "commitEffects prev eventsReplaced cur =
     (let a1 = (if navigateToDate (home cur) \<noteq> navigateToDate (home prev)
                then navigationEffect cur cur else cur);
          a2 = (if scrollDeps cur \<noteq> scrollDeps prev
                then infiniteScrollEffect cur a1 else a1);
          a3 = (if eventsReplaced then visibleRangeSync cur a2 else a2)
      in a3)"

text \<open>State updates made by effects cause a further render and commit; the loop ends
  when a render changes no dependency. The fuel is React's limit on nested updates.\<close>

fun flushEffects :: "nat \<Rightarrow> App \<Rightarrow> bool \<Rightarrow> App \<Rightarrow> App" where
  "flushEffects 0 prev eventsReplaced cur = cur"
| "flushEffects (Suc n) prev eventsReplaced cur =
     (if \<not> eventsReplaced \<and> navigateToDate (home cur) = navigateToDate (home prev)
         \<and> scrollDeps cur = scrollDeps prev
      then cur
      else flushEffects n cur False (commitEffects prev eventsReplaced cur))"

definition maxUpdateDepth :: nat where
  "maxUpdateDepth = 50"

text \<open>Mounting: every effect runs once, the initial-load effect (\<open>loadEvents(1)\<close>) first.\<close>

definition mount :: App where
  "mount =
     (let a0 = initialApp;
          a1 = callLoadEvents retryRequest a0;
          a2 = navigationEffect a0 a1;
          a3 = infiniteScrollEffect a0 a2;
          a4 = visibleRangeSync a0 a3
      in flushEffects maxUpdateDepth a0 False a4)"

text \<open>
  What can happen next: a click on a chart date, a pending fetch settling (the \<open>i\<close>-th
  of the pending ones, with a response or a rejection), the sentinel entering or leaving
  the view, a click on Retry. The error screen, and so the Retry button, is rendered when
  \<open>error\<close> is truthy and the initial loading screen is not shown instead.
\<close>

datatype Action =
    DateClick string
  | Settle nat "Thrown + ApiResponse"
  | SetInView bool
  | RetryClick

definition retryShown :: "TableState \<Rightarrow> bool" where
  "retryShown st \<longleftrightarrow>
     \<not> (loading st \<and> length (events st) = 0)
     \<and> (case error st of Some m \<Rightarrow> m \<noteq> '''' | None \<Rightarrow> False)"

definition isResponse :: "Thrown + ApiResponse \<Rightarrow> bool" where
  "isResponse outcome = (case outcome of Inr _ \<Rightarrow> True | Inl _ \<Rightarrow> False)"

fun step :: "Action \<Rightarrow> App \<Rightarrow> App" where
  "step (DateClick d) a =
     flushEffects maxUpdateDepth a False (a \<lparr> home := handleDateClick d (home a) \<rparr>)"
| "step (Settle i outcome) a =
     (if i < length (pending a) then
        flushEffects maxUpdateDepth a (isResponse outcome)
          (a \<lparr> table := loadEvents_settle (pending a ! i) outcome (table a),
               pending := take i (pending a) @ drop (Suc i) (pending a) \<rparr>)
      else a)"
| "step (SetInView b) a =
     flushEffects maxUpdateDepth a False (a \<lparr> inView := b \<rparr>)"
| "step RetryClick a =
     (if retryShown (table a)
      then flushEffects maxUpdateDepth a False (callLoadEvents retryRequest a)
      else a)"

fun run :: "Action list \<Rightarrow> App \<Rightarrow> App" where
  "run [] a = a"
| "run (x # xs) a = run xs (step x a)"

text \<open>Fixtures: pages as the server sends them.\<close>

definition person_named :: "string \<Rightarrow> string \<Rightarrow> string \<Rightarrow> Person" where
  "person_named i f l = \<lparr> p_id = i, first_name = f, last_name = l,
     email_address = f @ ''@example.com'', job_title = None \<rparr>"

definition page_of :: "ActivityEvent list \<Rightarrow> (string \<rightharpoonup> Person) \<Rightarrow> int \<Rightarrow> bool \<Rightarrow> ApiResponse" where
  "page_of evs ps n nxt = \<lparr> resp_events = evs, resp_persons = ps,
     pagination = \<lparr> current_page = n, total_pages = 3, total_count = 5, has_next = nxt,
                    has_previous = (n > 1) \<rparr> \<rparr>"

definition firstPage :: ApiResponse where
  "firstPage = page_of [event_at 1 ''2024-01-15T10:00:00Z'', event_at 2 ''2024-01-14T15:30:00Z'']
     [''person1'' \<mapsto> person_named ''person1'' ''John'' ''Doe''] 1 True"

definition secondPage :: ApiResponse where
  "secondPage = page_of [event_at 3 ''2024-01-12T09:00:00Z'']
     [''person2'' \<mapsto> person_named ''person2'' ''Jane'' ''Smith''] 2 True"

definition navPage :: ApiResponse where
  "navPage = page_of [event_at 4 ''2024-01-10T08:00:00Z'', event_at 5 ''2024-01-09T08:00:00Z'']
     [''person3'' \<mapsto> person_named ''person3'' ''Bob'' ''Johnson''] 1 True"

definition emptyPage :: ApiResponse where
  "emptyPage = page_of [] Map.empty 1 False"

text \<open>
  Runs of the page used below: the first page loaded; a chart click on 2024-01-10 after
  that; the same click while a load-more fetch is pending; that click's fetch rejected;
  and a navigation whose page is empty.
\<close>

definition ready :: App where
  "ready = step (Settle 0 (Inr firstPage)) mount"

definition navRequest :: "string \<Rightarrow> FetchRequest" where
  "navRequest d = \<lparr> req_page = 1, req_targetDate = Some d, req_append = False \<rparr>"

definition moreRequest :: "int \<Rightarrow> FetchRequest" where
  "moreRequest n = \<lparr> req_page = n, req_targetDate = None, req_append = True \<rparr>"

definition raceStart :: App where
  "raceStart = run [SetInView True, DateClick ''2024-01-10''] ready"

definition afterClick :: App where
  "afterClick = step (DateClick ''2024-01-10'') ready"

definition afterEmptyNavigation :: App where
  "afterEmptyNavigation = run [DateClick ''2024-01-01'', Settle 0 (Inr emptyPage)] ready"

definition afterFailedNavigation :: App where
  "afterFailedNavigation = step (Settle 0 (Inl (ErrorInstance ''Network error''))) afterClick"



section \<open>Properties of the marker projection\<close>

lemma findIndex_ge: "- 1 \<le> findIndex P xs"
  by (induction xs) (auto simp: Let_def)

lemma findIndex_absent: "(\<forall>a \<in> set xs. \<not> P a) \<Longrightarrow> findIndex P xs = - 1"
  by (induction xs) (auto simp: Let_def)

lemma findIndex_first:
  "i < length xs \<Longrightarrow> P (xs ! i) \<Longrightarrow> (\<forall>j<i. \<not> P (xs ! j)) \<Longrightarrow> findIndex P xs = int i"
proof (induction xs arbitrary: i)
  case Nil
  then show ?case by simp
next
  case (Cons a as)
  show ?case
  proof (cases i)
    case 0
    with Cons.prems show ?thesis by simp
  next
    case (Suc k)
    with Cons.prems have na: "\<not> P a" by auto
    from Suc Cons.prems have "k < length as" "P (as ! k)" by auto
    moreover from Suc Cons.prems have "\<forall>j<k. \<not> P (as ! j)" by auto
    ultimately have "findIndex P as = int k" by (rule Cons.IH)
    with na Suc show ?thesis by (simp add: Let_def)
  qed
qed

lemma map_const_replicate: "(\<forall>x \<in> set xs. f x = c) \<Longrightarrow> map f xs = replicate (length xs) c"
  by (induction xs) auto

lemma length_touchpointMarkers:
  "chartData \<noteq> [] \<Longrightarrow> length (touchpointMarkers cw chartData tps) = length tps"
  by (simp add: touchpointMarkers_def Let_def)

lemma marker_x_nth:
  "chartData \<noteq> [] \<Longrightarrow> k < length tps \<Longrightarrow>
   marker_x (touchpointMarkers cw chartData tps ! k) =
     (let dateIndex = findIndex (\<lambda>d. date d = tp_date (tps ! k)) chartData
      in if dateIndex \<ge> 0 \<and> length chartData > 1
         then (real_of_int dateIndex / real (length chartData - 1))
              * (chartWidth_of cw - padding * 2) + padding
         else 0)"
  by (simp add: touchpointMarkers_def Let_def)

text \<open>
  C6. A touchpoint whose date is on an axis of at least two dates is placed by linear
  interpolation of the index of that date (its first occurrence in the axis array) over
  the chart width less the two fixed margins:
  \<open>(index / (axisLength - 1)) * (chartWidth - 2 * padding) + padding\<close>.
\<close>

theorem C6_marker_on_axis_interpolated:
  assumes "2 \<le> length chartData"
    and "i < length chartData"
    and "date (chartData ! i) = tp_date (tps ! k)"
    and "\<forall>j<i. date (chartData ! j) \<noteq> tp_date (tps ! k)"
    and "k < length tps"
  shows "marker_x (touchpointMarkers cw chartData tps ! k) =
           (real i / real (length chartData - 1)) * (chartWidth_of cw - 2 * padding) + padding"
proof -
  from assms(1) have ne: "chartData \<noteq> []" by auto
  have "findIndex (\<lambda>d. date d = tp_date (tps ! k)) chartData = int i"
    using assms(2,3,4) by (intro findIndex_first) auto
  with assms(1) show ?thesis
    by (simp add: marker_x_nth [OF ne assms(5)] Let_def)
qed

theorem C6_witness:
  "marker_x (touchpointMarkers (Some 800) axis2
      [touchpoint_on ''P1'' ''2024-01-10'', touchpoint_on ''P2'' ''2024-01-15''] ! 1) = 740"
  using C6_marker_on_axis_interpolated
    [of axis2 1 "[touchpoint_on ''P1'' ''2024-01-10'', touchpoint_on ''P2'' ''2024-01-15'']"
        1 "Some 800"]
  by (simp add: axis2_def touchpoint_on_def chartWidth_of_def padding_def)

text \<open>
  C10. With exactly one date on the axis every marker is placed at \<open>0\<close>, whatever its
  date (the date of the single bucket included): one marker per touchpoint is produced
  and the interpolation branch, which needs two axis points, is never taken.
\<close>

theorem C10_single_date_axis_all_zero:
  assumes "length chartData = 1"
  shows "length (touchpointMarkers cw chartData tps) = length tps \<and>
         (\<forall>m \<in> set (touchpointMarkers cw chartData tps). marker_x m = 0)"
  using assms by (auto simp: touchpointMarkers_def Let_def)

theorem C10_witness:
  "map marker_x (touchpointMarkers (Some 800) axis1
      [touchpoint_on ''P1'' ''2024-01-10'', touchpoint_on ''P2'' ''2024-01-12'']) = [0, 0]"
proof -
  let ?tps = "[touchpoint_on ''P1'' ''2024-01-10'', touchpoint_on ''P2'' ''2024-01-12'']"
  have len: "length axis1 = 1" by (simp add: axis1_def)
  from C10_single_date_axis_all_zero [OF len, of "Some 800" ?tps]
  have l: "length (touchpointMarkers (Some 800) axis1 ?tps) = 2"
    and z: "\<forall>m \<in> set (touchpointMarkers (Some 800) axis1 ?tps). marker_x m = 0"
    by simp_all
  from z have "map marker_x (touchpointMarkers (Some 800) axis1 ?tps) =
      replicate (length (touchpointMarkers (Some 800) axis1 ?tps)) 0"
    by (rule map_const_replicate)
  with l show ?thesis by (simp add: numeral_2_eq_2)
qed

text \<open>
  C5 (as stated, refuted). On the axis 2024-01-10, 2024-01-15 of an 800 pixel chart the
  axis dates sit at 60 and 740. Touchpoints dated 2024-01-11 and 2024-01-14, both absent
  from the axis and nearest to different ends of it, are both placed at \<open>0\<close>, left of
  the whole axis; and on an empty axis a touchpoint gives no marker at all.
\<close>

theorem C5_counterexample:
  "map marker_x (touchpointMarkers (Some 800) axis2
      [touchpoint_on ''P1'' ''2024-01-11'', touchpoint_on ''P2'' ''2024-01-14'']) = [0, 0]
   \<and> map marker_x (touchpointMarkers (Some 800) axis2
      [touchpoint_on ''P1'' ''2024-01-10'', touchpoint_on ''P2'' ''2024-01-15'']) = [60, 740]
   \<and> touchpointMarkers (Some 800) [] [touchpoint_on ''P1'' ''2024-01-11''] = []"
  by (simp add: touchpointMarkers_def axis2_def touchpoint_on_def chartWidth_of_def padding_def
      Let_def)

text \<open>
  C5 (amended). On a non-empty axis every touchpoint gives one marker, in order; a marker
  whose date is absent from the axis keeps its person and date and is placed at the fixed
  position \<open>0\<close>, whatever the axis and the chart width. On an empty axis no marker is
  produced.
\<close>

theorem C5_absent_date_pinned_to_zero:
  "touchpointMarkers cw [] tps = []
   \<and> (chartData \<noteq> [] \<longrightarrow>
        length (touchpointMarkers cw chartData tps) = length tps
        \<and> (\<forall>k < length tps. tp_date (tps ! k) \<notin> date ` set chartData \<longrightarrow>
              m_person_id (touchpointMarkers cw chartData tps ! k) = person_id (tps ! k)
              \<and> m_date (touchpointMarkers cw chartData tps ! k) = tp_date (tps ! k)
              \<and> marker_x (touchpointMarkers cw chartData tps ! k) = 0))"
proof -
  have absent: "findIndex (\<lambda>d. date d = tp_date (tps ! k)) chartData = - 1"
    if "tp_date (tps ! k) \<notin> date ` set chartData" for k
    using that by (intro findIndex_absent) force
  show ?thesis
    by (auto simp: touchpointMarkers_def Let_def absent)
qed

theorem C5_witness:
  "length (touchpointMarkers (Some 800) axis2 [touchpoint_on ''P2'' ''2024-01-12'']) = 1
   \<and> m_person_id (touchpointMarkers (Some 800) axis2 [touchpoint_on ''P2'' ''2024-01-12''] ! 0) = ''P2''
   \<and> m_date (touchpointMarkers (Some 800) axis2 [touchpoint_on ''P2'' ''2024-01-12''] ! 0) = ''2024-01-12''
   \<and> marker_x (touchpointMarkers (Some 800) axis2 [touchpoint_on ''P2'' ''2024-01-12''] ! 0) = 0"
  using C5_absent_date_pinned_to_zero [of "Some 800" "[touchpoint_on ''P2'' ''2024-01-12'']" axis2]
  by (simp add: axis2_def touchpoint_on_def)

section \<open>Properties of the date gap and the row rendering\<close>














lemma calculateDateGap_repository_tests:
  "calculateDateGap parseISO_utc utcZone ''2024-01-15T10:00:00Z'' ''2024-01-12T10:00:00Z'' = Some 3"
  "calculateDateGap parseISO_utc utcZone ''2024-01-15T10:00:00Z'' ''2024-01-15T18:00:00Z'' = Some 0"
  by code_simp+



section \<open>Properties of the visible range\<close>

lemma take_mono_lex: "xs \<le> ys \<Longrightarrow> take n xs \<le> take n (ys :: 'a :: linorder list)"
proof (induction xs arbitrary: ys n)
  case Nil
  then show ?case by simp
next
  case (Cons a as)
  then show ?case
    by (cases ys; cases n) auto
qed

lemma split_T_iso: "isoTimestamp s \<Longrightarrow> split_T_first s = calendarDate s"
proof -
  assume a: "isoTimestamp s"
  then have len: "10 < length s" and t: "s ! 10 = CHR ''T''"
    and nt: "\<And>c. c \<in> set (take 10 s) \<Longrightarrow> c \<noteq> CHR ''T''"
    by (auto simp: isoTimestamp_def)
  from len have "drop 10 s = s ! 10 # drop (Suc 10) s"
    by (rule Cons_nth_drop_Suc [symmetric])
  then have s: "s = take 10 s @ CHR ''T'' # drop (Suc 10) s"
    using t by (metis append_take_drop_id)
  have "takeWhile (\<lambda>c. c \<noteq> CHR ''T'') (take 10 s @ CHR ''T'' # drop (Suc 10) s) = take 10 s"
    using nt by (simp add: takeWhile_append2)
  with s show ?thesis by (simp add: split_T_first_def calendarDate_def)
qed

lemma sorted_desc_last_le_hd:
  fixes xs :: "'a :: linorder list"
  assumes "xs \<noteq> []" "sorted_wrt (>) xs"
  shows "last xs \<le> hd xs"
proof (cases xs)
  case Nil
  with assms(1) show ?thesis by simp
next
  case (Cons a as)
  show ?thesis
  proof (cases "as = []")
    case True
    with Cons show ?thesis by simp
  next
    case False
    then have "last as \<in> set as" by simp
    with assms(2) Cons have "last as < a" by auto
    with Cons False show ?thesis by simp
  qed
qed

text \<open>
  C2. For a non-empty list of events whose timestamps are ISO-8601 strings in strictly
  descending order, the visible-range effect calls \<open>onVisibleRangeChange\<close> with the
  calendar date of the last (oldest) event as start and the calendar date of the first
  (newest) event as end, and the start is not after the end.
\<close>

theorem C2_visible_range:
  assumes "evs \<noteq> []"
    and "\<forall>e \<in> set evs. isoTimestamp (timestamp e)"
    and "sorted_wrt (>) (map timestamp evs)"
  shows "visibleRangeEffect evs =
           Some (calendarDate (timestamp (last evs)), calendarDate (timestamp (hd evs)))
         \<and> calendarDate (timestamp (last evs)) \<le> calendarDate (timestamp (hd evs))"
proof -
  from assms(1) have h: "evs ! 0 = hd evs" and l: "evs ! (length evs - Suc 0) = last evs"
    by (simp_all add: hd_conv_nth last_conv_nth)
  from assms(1,2) have "isoTimestamp (timestamp (hd evs))" "isoTimestamp (timestamp (last evs))"
    by simp_all
  then have sp: "split_T_first (timestamp (hd evs)) = calendarDate (timestamp (hd evs))"
    "split_T_first (timestamp (last evs)) = calendarDate (timestamp (last evs))"
    by (simp_all add: split_T_iso)
  have r: "visibleRangeEffect evs =
      Some (calendarDate (timestamp (last evs)), calendarDate (timestamp (hd evs)))"
    using assms(1) by (simp add: visibleRangeEffect_def Let_def h l sp)
  from assms(1,3) have "last (map timestamp evs) \<le> hd (map timestamp evs)"
    by (intro sorted_desc_last_le_hd) simp_all
  with assms(1) have "timestamp (last evs) \<le> timestamp (hd evs)"
    by (simp add: last_map hd_map)
  then have "calendarDate (timestamp (last evs)) \<le> calendarDate (timestamp (hd evs))"
    unfolding calendarDate_def by (rule take_mono_lex)
  with r show ?thesis by simp
qed

theorem C2_witness:
  "visibleRangeEffect (resp_events firstPage) = Some (''2024-01-14'', ''2024-01-15'')
   \<and> ''2024-01-14'' \<le> ''2024-01-15''"
  using C2_visible_range [of "resp_events firstPage"]
  by (simp add: firstPage_def page_of_def event_at_def isoTimestamp_def calendarDate_def)

section \<open>Properties of the effects and the loading state\<close>

lemmas effect_defs = commitEffects_def navigationEffect_def infiniteScrollEffect_def
  visibleRangeSync_def callLoadEvents_def loadEvents_begin_def handleNavigationComplete_def
  handleVisibleRangeChange_def

lemma commit_events [simp]: "events (table (commitEffects prev er cur)) = events (table cur)"
  by (simp add: effect_defs Let_def split: option.splits prod.splits)

lemma commit_persons [simp]: "persons (table (commitEffects prev er cur)) = persons (table cur)"
  by (simp add: effect_defs Let_def split: option.splits prod.splits)

lemma commit_error [simp]: "error (table (commitEffects prev er cur)) = error (table cur)"
  by (simp add: effect_defs Let_def split: option.splits prod.splits)

lemma commit_rangeCalls:
  "rangeCalls (commitEffects prev er cur) =
     rangeCalls cur @ (if er then (case visibleRangeEffect (events (table cur)) of
                                      None \<Rightarrow> [] | Some r \<Rightarrow> [r]) else [])"
  by (simp add: effect_defs Let_def split: option.splits prod.splits)

lemma commit_pending: "\<exists>ys. pending (commitEffects prev er cur) = pending cur @ ys"
  by (simp add: effect_defs Let_def split: option.splits prod.splits)

lemma flush_events [simp]: "events (table (flushEffects n prev er cur)) = events (table cur)"
  by (induction n arbitrary: prev er cur) simp_all

lemma flush_persons [simp]: "persons (table (flushEffects n prev er cur)) = persons (table cur)"
  by (induction n arbitrary: prev er cur) simp_all

lemma flush_error [simp]: "error (table (flushEffects n prev er cur)) = error (table cur)"
  by (induction n arbitrary: prev er cur) simp_all

lemma flush_rangeCalls_quiet: "rangeCalls (flushEffects n prev False cur) = rangeCalls cur"
  by (induction n arbitrary: prev cur) (simp_all add: commit_rangeCalls)

lemma flush_rangeCalls_replaced:
  "0 < n \<Longrightarrow>
   rangeCalls (flushEffects n prev True cur) =
     rangeCalls cur @ (case visibleRangeEffect (events (table cur)) of
                         None \<Rightarrow> [] | Some r \<Rightarrow> [r])"
  by (cases n) (simp_all add: flush_rangeCalls_quiet commit_rangeCalls)

lemma flush_pending: "\<exists>ys. pending (flushEffects n prev er cur) = pending cur @ ys"
proof (induction n arbitrary: prev er cur)
  case 0
  then show ?case by simp
next
  case (Suc n)
  obtain ys where ys: "pending (commitEffects prev er cur) = pending cur @ ys"
    using commit_pending by blast
  obtain zs where "pending (flushEffects n cur False (commitEffects prev er cur))
      = pending (commitEffects prev er cur) @ zs"
    using Suc.IH by blast
  with ys show ?case by auto
qed

lemma flush_same: "flushEffects n a False a = a"
  by (cases n) simp_all

lemma navigationEffect_nav:
  "navigateToDate (home (navigationEffect snap acc)) = navigateToDate (home acc)
   \<or> navigateToDate (home (navigationEffect snap acc)) = ''''"
  by (simp add: navigationEffect_def handleNavigationComplete_def callLoadEvents_def Let_def)

lemma infiniteScrollEffect_nav [simp]:
  "home (infiniteScrollEffect snap acc) = home acc"
  by (simp add: infiniteScrollEffect_def callLoadEvents_def)

lemma visibleRangeSync_nav [simp]:
  "navigateToDate (home (visibleRangeSync snap acc)) = navigateToDate (home acc)"
  by (simp add: visibleRangeSync_def handleVisibleRangeChange_def split: option.splits prod.splits)

lemma visibleRangeSync_table [simp]: "table (visibleRangeSync snap acc) = table acc"
  and visibleRangeSync_inView [simp]: "inView (visibleRangeSync snap acc) = inView acc"
  by (simp_all add: visibleRangeSync_def split: option.splits prod.splits)

lemma commit_nav:
  "navigateToDate (home (commitEffects prev er cur)) = navigateToDate (home cur)
   \<or> navigateToDate (home (commitEffects prev er cur)) = ''''"
  using navigationEffect_nav [of cur cur]
  by (simp add: commitEffects_def Let_def)

lemma navigationEffect_scroll:
  "navigationEffect snap acc = acc \<or> loading (table (navigationEffect snap acc))"
  by (simp add: navigationEffect_def callLoadEvents_def loadEvents_begin_def Let_def)

lemma navigationEffect_inView [simp]: "inView (navigationEffect snap acc) = inView acc"
  by (simp add: navigationEffect_def callLoadEvents_def Let_def)

lemma infiniteScrollEffect_scroll:
  "infiniteScrollEffect snap acc = acc \<or> loadingMore (table (infiniteScrollEffect snap acc))"
  by (simp add: infiniteScrollEffect_def callLoadEvents_def loadEvents_begin_def)

lemma infiniteScrollEffect_loading [simp]:
  "loading (table (infiniteScrollEffect snap acc)) = loading (table acc)"
  by (simp add: infiniteScrollEffect_def callLoadEvents_def loadEvents_begin_def)

lemma commit_scroll:
  "scrollDeps (commitEffects prev er cur) = scrollDeps cur
   \<or> loading (table (commitEffects prev er cur))
   \<or> loadingMore (table (commitEffects prev er cur))"
proof -
  define a1 where "a1 = (if navigateToDate (home cur) \<noteq> navigateToDate (home prev)
                then navigationEffect cur cur else cur)"
  define a2 where "a2 = (if scrollDeps cur \<noteq> scrollDeps prev
                then infiniteScrollEffect cur a1 else a1)"
  have c: "table (commitEffects prev er cur) = table a2"
    "inView (commitEffects prev er cur) = inView a2"
    by (simp_all add: commitEffects_def Let_def a1_def a2_def)
  have 1: "a1 = cur \<or> loading (table a1)"
    using navigationEffect_scroll [of cur cur] by (auto simp: a1_def)
  have 2: "a2 = a1 \<or> loadingMore (table a2)"
    using infiniteScrollEffect_scroll [of cur a1] by (auto simp: a2_def)
  have 3: "loading (table a2) = loading (table a1)"
    by (simp add: a2_def)
  from 1 2 3 have "a2 = cur \<or> loading (table a2) \<or> loadingMore (table a2)"
    by auto
  then show ?thesis
    using c by (auto simp: scrollDeps_def)
qed

lemma commit_twice:
  "commitEffects cur False (commitEffects prev er cur) = commitEffects prev er cur"
proof -
  let ?c = "commitEffects prev er cur"
  have n: "navigateToDate (home ?c) \<noteq> navigateToDate (home cur) \<longrightarrow> navigationEffect ?c ?c = ?c"
    using commit_nav [of prev er cur] by (auto simp: navigationEffect_def)
  have s: "scrollDeps ?c \<noteq> scrollDeps cur \<longrightarrow> infiniteScrollEffect ?c ?c = ?c"
    using commit_scroll [of prev er cur] by (auto simp: infiniteScrollEffect_def)
  show ?thesis
    using n s by (subst commitEffects_def) (simp add: Let_def)
qed

lemma flush_two_commits:
  "flushEffects (Suc (Suc n)) prev er cur =
     (if \<not> er \<and> navigateToDate (home cur) = navigateToDate (home prev)
         \<and> scrollDeps cur = scrollDeps prev
      then cur else commitEffects prev er cur)"
proof -
  have "flushEffects (Suc n) cur False (commitEffects prev er cur) = commitEffects prev er cur"
    by (simp add: commit_twice flush_same)
  then show ?thesis by simp
qed

text \<open>The loop of renders ends well within its fuel: after one commit a further commit
  changes nothing.\<close>

lemma effects_settle_in_one_commit:
  "flushEffects maxUpdateDepth prev er cur =
     (if \<not> er \<and> navigateToDate (home cur) = navigateToDate (home prev)
         \<and> scrollDeps cur = scrollDeps prev
      then cur else commitEffects prev er cur)"
proof -
  have d: "maxUpdateDepth = Suc (Suc 48)" by (simp add: maxUpdateDepth_def)
  show ?thesis unfolding d by (rule flush_two_commits)
qed

lemma flush_while_loading:
  assumes "loading (table cur)" "navigateToDate (home cur) = navigateToDate (home prev)"
  shows "flushEffects n prev False cur = cur"
proof (cases n)
  case 0
  then show ?thesis by simp
next
  case (Suc m)
  from assms have "commitEffects prev False cur = cur"
    by (simp add: commitEffects_def infiniteScrollEffect_def)
  with Suc show ?thesis by (simp add: flush_same)
qed

lemma depth: "0 < maxUpdateDepth"
  by (simp add: maxUpdateDepth_def)

lemma flush_settled:
  assumes "loading (table cur)"
    and "navigateToDate (home cur) = navigateToDate (home prev) \<or> navigateToDate (home cur) = ''''"
  shows "flushEffects n prev False cur = cur"
proof (cases n)
  case 0
  then show ?thesis by simp
next
  case (Suc m)
  from assms have "commitEffects prev False cur = cur"
    by (auto simp: commitEffects_def infiniteScrollEffect_def navigationEffect_def)
  with Suc show ?thesis by (simp add: flush_same)
qed

lemma dateClick_forwards_once:
  assumes "navigateToDate (home a) = ''''" and "d \<noteq> ''''"
  shows "issued (step (DateClick d) a) = issued a @ [navRequest d]
       \<and> pending (step (DateClick d) a) = pending a @ [navRequest d]
       \<and> navigateToDate (home (step (DateClick d) a)) = ''''
       \<and> loading (table (step (DateClick d) a))
       \<and> events (table (step (DateClick d) a)) = events (table a)"
proof -
  let ?cur = "a \<lparr> home := handleDateClick d (home a) \<rparr>"
  let ?c1 = "(callLoadEvents (navRequest d) ?cur)
               \<lparr> home := handleNavigationComplete (home ?cur) \<rparr>"
  obtain n where n: "maxUpdateDepth = Suc n"
    using depth by (cases maxUpdateDepth) simp_all
  have c: "commitEffects a False ?cur = ?c1"
    using assms
    by (simp add: commitEffects_def navigationEffect_def handleDateClick_def scrollDeps_def
        navRequest_def callLoadEvents_def Let_def)
  have fl: "flushEffects n ?cur False ?c1 = ?c1"
    by (rule flush_settled)
       (simp_all add: callLoadEvents_def loadEvents_begin_def navRequest_def
          handleNavigationComplete_def)
  have "step (DateClick d) a = flushEffects (Suc n) a False ?cur"
    by (simp only: step.simps n)
  also have "\<dots> = flushEffects n ?cur False (commitEffects a False ?cur)"
    using assms by (simp add: handleDateClick_def)
  also have "\<dots> = ?c1"
    by (simp only: c fl)
  finally have "step (DateClick d) a = ?c1" .
  then show ?thesis
    by (simp add: callLoadEvents_def loadEvents_begin_def navRequest_def
        handleNavigationComplete_def)
qed

lemma flush_no_navigation:
  assumes "navigateToDate (home cur) = navigateToDate (home prev)"
  shows "\<exists>ys. issued (flushEffects n prev er cur) = issued cur @ ys
            \<and> (\<forall>r \<in> set ys. req_targetDate r = None)
            \<and> navigateToDate (home (flushEffects n prev er cur)) = navigateToDate (home cur)"
  using assms
proof (induction n arbitrary: prev er cur)
  case 0
  then show ?case by simp
next
  case (Suc n)
  let ?c = "commitEffects prev er cur"
  have c: "navigateToDate (home ?c) = navigateToDate (home cur)"
    "\<exists>ys. issued ?c = issued cur @ ys \<and> (\<forall>r \<in> set ys. req_targetDate r = None)"
    using Suc.prems
    by (auto simp: commitEffects_def infiniteScrollEffect_def visibleRangeSync_def
        callLoadEvents_def handleVisibleRangeChange_def Let_def split: option.splits)
  then obtain ys where ys: "issued ?c = issued cur @ ys" "\<forall>r \<in> set ys. req_targetDate r = None"
    by blast
  from Suc.IH [OF c(1)] obtain zs where
    zs: "issued (flushEffects n cur False ?c) = issued ?c @ zs"
      "\<forall>r \<in> set zs. req_targetDate r = None"
      "navigateToDate (home (flushEffects n cur False ?c)) = navigateToDate (home ?c)"
    by blast
  show ?case
  proof (cases "\<not> er \<and> scrollDeps cur = scrollDeps prev")
    case True
    with Suc.prems show ?thesis by simp
  next
    case False
    with Suc.prems have "flushEffects (Suc n) prev er cur = flushEffects n cur False ?c"
      by auto
    with ys zs c(1) show ?thesis
      by (intro exI [of _ "ys @ zs"]) auto
  qed
qed

lemma settle_never_navigates:
  "\<exists>ys. issued (step (Settle i outcome) a) = issued a @ ys
        \<and> (\<forall>r \<in> set ys. req_targetDate r = None)
        \<and> navigateToDate (home (step (Settle i outcome) a)) = navigateToDate (home a)"
proof (cases "i < length (pending a)")
  case True
  let ?cur = "a \<lparr> table := loadEvents_settle (pending a ! i) outcome (table a),
                   pending := take i (pending a) @ drop (Suc i) (pending a) \<rparr>"
  have "navigateToDate (home ?cur) = navigateToDate (home a)" by simp
  from flush_no_navigation [OF this, of maxUpdateDepth "isResponse outcome"] True
  show ?thesis by simp
next
  case False
  then show ?thesis by simp
qed

lemma step_settle_response:
  "i < length (pending a) \<Longrightarrow>
   events (table (step (Settle i (Inr r)) a)) =
     (if req_append (pending a ! i) then events (table a) @ resp_events r else resp_events r)"
  by (simp add: loadEvents_settle_def Let_def)

lemma step_settle_pending:
  "i < length (pending a) \<Longrightarrow>
   \<exists>ys. pending (step (Settle i outcome) a) = take i (pending a) @ drop (Suc i) (pending a) @ ys"
  using flush_pending [of maxUpdateDepth a "isResponse outcome"
      "a \<lparr> table := loadEvents_settle (pending a ! i) outcome (table a),
           pending := take i (pending a) @ drop (Suc i) (pending a) \<rparr>"]
  by auto

text \<open>
  C1 (amended). A fetch carries its page, page size and target date and nothing else, and
  every response is applied when it arrives. With a load-more fetch and a navigation
  fetch both pending: if the navigation's response arrives first and the load-more's
  second, the list is the navigation's page followed by the load-more's page; if the
  load-more's response arrives first, the list is exactly the navigation's page.
\<close>

theorem C1_responses_apply_in_arrival_order:
  assumes "pending a = lm # nav # rest"
    and "req_append lm" and "\<not> req_append nav"
  shows "events (table (run [Settle 1 (Inr n), Settle 0 (Inr m)] a)) = resp_events n @ resp_events m
       \<and> events (table (run [Settle 0 (Inr m), Settle 0 (Inr n)] a)) = resp_events n"
proof -
  have l: "1 < length (pending a)" "0 < length (pending a)" using assms(1) by simp_all
  obtain ys where ys: "pending (step (Settle 1 (Inr n)) a) = lm # rest @ ys"
    using step_settle_pending [OF l(1), of "Inr n"] assms(1) by auto
  have e1: "events (table (step (Settle 1 (Inr n)) a)) = resp_events n"
    using step_settle_response [OF l(1), of n] assms(1,3) by (simp del: step.simps)
  have A: "events (table (step (Settle 0 (Inr m)) (step (Settle 1 (Inr n)) a)))
      = resp_events n @ resp_events m"
    using ys assms(2) e1 by (subst step_settle_response) (simp_all del: step.simps)
  obtain zs where zs: "pending (step (Settle 0 (Inr m)) a) = nav # rest @ zs"
    using step_settle_pending [OF l(2), of "Inr m"] assms(1) by auto
  have B: "events (table (step (Settle 0 (Inr n)) (step (Settle 0 (Inr m)) a))) = resp_events n"
    using zs assms(3) by (subst step_settle_response) (simp_all del: step.simps)
  from A B show ?thesis by simp
qed

lemma raceStart_pending: "pending raceStart = moreRequest 2 # navRequest ''2024-01-10'' # []"
  by code_simp

text \<open>
  C1 (as stated, refuted). The first page is loaded, the sentinel scrolls into view (a
  load-more fetch for page 2 is issued) and a chart date is clicked before it resolves.
  The navigation's response arrives, then the load-more's: its rows are appended, and
  the list is not the navigation's result.
\<close>

theorem C1_counterexample:
  "pending raceStart = [moreRequest 2, navRequest ''2024-01-10'']
   \<and> events (table (run [Settle 1 (Inr navPage), Settle 0 (Inr secondPage)] raceStart))
       = resp_events navPage @ resp_events secondPage
   \<and> events (table (run [Settle 1 (Inr navPage), Settle 0 (Inr secondPage)] raceStart))
       \<noteq> resp_events navPage"
  by code_simp

theorem C1_witness:
  "events (table (run [Settle 1 (Inr navPage), Settle 0 (Inr secondPage)] raceStart))
       = resp_events navPage @ resp_events secondPage
   \<and> events (table (run [Settle 0 (Inr secondPage), Settle 0 (Inr navPage)] raceStart))
       = resp_events navPage"
  using C1_responses_apply_in_arrival_order [OF raceStart_pending, of navPage secondPage]
  by (simp add: moreRequest_def navRequest_def del: run.simps)

text \<open>
  C7 (the code at the failing input). Right after a click on a chart date, with the
  navigation's fetch still pending and the rows still those of the first page,
  \<open>navigateToDate\<close> is already cleared: \<open>onNavigationComplete\<close> ran when the fetch was
  issued, not when the replace completed.
\<close>

theorem C7_cleared_before_replace:
  "navigateToDate (home afterClick) = ''''
   \<and> pending afterClick = [navRequest ''2024-01-10'']
   \<and> loading (table afterClick)
   \<and> events (table afterClick) = resp_events firstPage"
  by code_simp

text \<open>
  C8 (as stated, refuted). A navigation whose page is empty replaces two loaded rows by
  none; \<open>onVisibleRangeChange\<close> is not called for it, and the page keeps showing the
  range of the rows that are gone.
\<close>

theorem C8_counterexample:
  "events (table ready) \<noteq> [] \<and> events (table afterEmptyNavigation) = []
   \<and> rangeCalls ready = [(''2024-01-14'', ''2024-01-15'')]
   \<and> rangeCalls afterEmptyNavigation = rangeCalls ready
   \<and> visibleStartDate (home afterEmptyNavigation) = ''2024-01-14''
   \<and> visibleEndDate (home afterEmptyNavigation) = ''2024-01-15''"
  by code_simp

text \<open>
  C3 (as stated, refuted). The navigation fetch for 2024-01-10 is rejected; Retry then
  issues \<open>loadEvents(1)\<close>, the first page with no target date, which is not the request
  that failed.
\<close>

theorem C3_counterexample:
  "pending afterClick = [navRequest ''2024-01-10'']
   \<and> error (table afterFailedNavigation) = Some ''Network error''
   \<and> pending afterFailedNavigation = []
   \<and> retryShown (table afterFailedNavigation)
   \<and> pending (step RetryClick afterFailedNavigation) = [retryRequest]
   \<and> retryRequest \<noteq> navRequest ''2024-01-10''"
  by code_simp

lemma step_persons:
  "persons (table (step x a)) =
     (case x of
        Settle i (Inr r) \<Rightarrow> if i < length (pending a) then persons (table a) ++ resp_persons r
                            else persons (table a)
      | _ \<Rightarrow> persons (table a))"
  by (cases x)
     (auto simp: loadEvents_settle_def callLoadEvents_def loadEvents_begin_def Let_def
           split: sum.splits)

lemma step_persons_mono: "dom (persons (table a)) \<subseteq> dom (persons (table (step x a)))"
  by (auto simp: step_persons split: Action.splits sum.splits)

lemma run_persons_mono: "dom (persons (table a)) \<subseteq> dom (persons (table (run acts a)))"
proof (induction acts arbitrary: a)
  case Nil
  show ?case by simp
next
  case (Cons x xs)
  have "dom (persons (table a)) \<subseteq> dom (persons (table (step x a)))"
    by (rule step_persons_mono)
  also have "\<dots> \<subseteq> dom (persons (table (run xs (step x a))))"
    by (rule Cons.IH)
  finally show ?case by simp
qed

text \<open>
  C9. Whatever happens on the page, every person id known before is known after; and a
  page that arrives is merged into the mapping (initial load, append and navigation
  replace alike).
\<close>

theorem C9_persons_grow:
  "dom (persons (table a)) \<subseteq> dom (persons (table (run acts a)))
   \<and> (i < length (pending a) \<longrightarrow>
        persons (table (step (Settle i (Inr r)) a)) = persons (table a) ++ resp_persons r)"
  using run_persons_mono [of a acts] by (simp add: step_persons del: step.simps)

lemma ready_person1: "persons (table ready) ''person1'' = Some (person_named ''person1'' ''John'' ''Doe'')"
  by code_simp

lemma afterClick_pending: "0 < length (pending afterClick)"
  by code_simp

theorem C9_witness:
  "''person1'' \<in> dom (persons (table (run [DateClick ''2024-01-10'', Settle 0 (Inr navPage)] ready)))
   \<and> persons (table (step (Settle 0 (Inr navPage)) afterClick)) ''person3''
       = Some (person_named ''person3'' ''Bob'' ''Johnson'')"
proof -
  have "''person1'' \<in> dom (persons (table ready))"
    using ready_person1 by blast
  moreover have "resp_persons navPage ''person3'' = Some (person_named ''person3'' ''Bob'' ''Johnson'')"
    by (simp add: navPage_def page_of_def)
  ultimately show ?thesis
    using C9_persons_grow [of ready "[DateClick ''2024-01-10'', Settle 0 (Inr navPage)]" 0 navPage]
      C9_persons_grow [of afterClick "[]" 0 navPage] afterClick_pending
    by (auto simp del: step.simps run.simps)
qed

lemma visibleRangeEffect_cases:
  "visibleRangeEffect evs =
     (if evs = [] then None
      else Some (split_T_first (timestamp (last evs)), split_T_first (timestamp (hd evs))))"
  by (simp add: visibleRangeEffect_def Let_def hd_conv_nth last_conv_nth)

text \<open>
  C8 (amended). When a page arrives, \<open>onVisibleRangeChange\<close> is called exactly once, with
  the range of the new list, if the new list is not empty, and not at all if it is empty.
  A rejected fetch, a chart click, a scroll and a retry click make no call.
\<close>

theorem C8_range_emitted_when_rows_remain:
  "(i < length (pending a) \<longrightarrow>
      rangeCalls (step (Settle i (Inr r)) a) =
        rangeCalls a @
        (if events (table (step (Settle i (Inr r)) a)) = [] then []
         else [(split_T_first (timestamp (last (events (table (step (Settle i (Inr r)) a))))),
                split_T_first (timestamp (hd (events (table (step (Settle i (Inr r)) a))))))]))
   \<and> rangeCalls (step (Settle i (Inl err)) a) = rangeCalls a
   \<and> rangeCalls (step (DateClick d) a) = rangeCalls a
   \<and> rangeCalls (step (SetInView b) a) = rangeCalls a
   \<and> rangeCalls (step RetryClick a) = rangeCalls a"
  by (simp add: depth flush_rangeCalls_replaced flush_rangeCalls_quiet isResponse_def
      visibleRangeEffect_cases callLoadEvents_def del: flushEffects.simps)

lemma mount_pending: "0 < length (pending mount)"
  by code_simp

lemma mount_rangeCalls: "rangeCalls mount = []"
  by code_simp

lemma ready_events: "events (table ready) = resp_events firstPage"
  by code_simp

theorem C8_witness:
  "rangeCalls ready = [(''2024-01-14'', ''2024-01-15'')]"
proof -
  have "rangeCalls ready =
      rangeCalls mount @
      (if events (table ready) = [] then []
       else [(split_T_first (timestamp (last (events (table ready)))),
              split_T_first (timestamp (hd (events (table ready)))))])"
    using C8_range_emitted_when_rows_remain [of 0 mount firstPage] mount_pending
    unfolding ready_def by blast
  then show ?thesis
    by (simp add: mount_rangeCalls ready_events split_T_first_def firstPage_def page_of_def
        event_at_def)
qed

text \<open>
  C3 (amended). When a fetch is rejected the loaded rows stay as they are and \<open>error\<close>
  holds the message of the rejection. The Retry button of the error screen issues
  \<open>loadEvents(1)\<close> (first page, no target date, replace), whichever request failed.
\<close>

theorem C3_failure_keeps_rows_retry_reloads:
  "(i < length (pending a) \<longrightarrow>
      events (table (step (Settle i (Inl err)) a)) = events (table a)
      \<and> error (table (step (Settle i (Inl err)) a)) =
          Some (case err of ErrorInstance m \<Rightarrow> m | OtherValue \<Rightarrow> ''Failed to load events''))
   \<and> (retryShown (table a) \<longrightarrow>
        issued (step RetryClick a) = issued a @ [retryRequest]
        \<and> pending (step RetryClick a) = pending a @ [retryRequest])"
proof -
  have "flushEffects maxUpdateDepth a False (callLoadEvents retryRequest a)
      = callLoadEvents retryRequest a"
    by (rule flush_while_loading)
       (simp_all add: callLoadEvents_def loadEvents_begin_def retryRequest_def)
  then have "retryShown (table a) \<longrightarrow>
        issued (step RetryClick a) = issued a @ [retryRequest]
        \<and> pending (step RetryClick a) = pending a @ [retryRequest]"
    by (simp add: callLoadEvents_def)
  moreover have "i < length (pending a) \<longrightarrow>
      events (table (step (Settle i (Inl err)) a)) = events (table a)
      \<and> error (table (step (Settle i (Inl err)) a)) =
          Some (case err of ErrorInstance m \<Rightarrow> m | OtherValue \<Rightarrow> ''Failed to load events'')"
    by (simp add: loadEvents_settle_def Let_def)
  ultimately show ?thesis by blast
qed

lemma afterFailed_retryShown: "retryShown (table afterFailedNavigation)"
  by code_simp

lemma afterClick_events: "events (table afterClick) = resp_events firstPage"
  by code_simp

lemma afterFailed_issued:
  "issued afterFailedNavigation = [retryRequest, navRequest ''2024-01-10'']"
  by code_simp

theorem C3_witness:
  "events (table afterFailedNavigation) = resp_events firstPage
   \<and> error (table afterFailedNavigation) = Some ''Network error''
   \<and> issued (step RetryClick afterFailedNavigation)
       = [retryRequest, navRequest ''2024-01-10'', retryRequest]"
proof -
  have "events (table afterFailedNavigation) = events (table afterClick)
      \<and> error (table afterFailedNavigation) = Some ''Network error''
      \<and> issued (step RetryClick afterFailedNavigation)
          = issued afterFailedNavigation @ [retryRequest]"
    using C3_failure_keeps_rows_retry_reloads [of 0 afterClick "ErrorInstance ''Network error''"]
      C3_failure_keeps_rows_retry_reloads [of 0 afterFailedNavigation OtherValue]
      afterClick_pending afterFailed_retryShown
    unfolding afterFailedNavigation_def by simp
  then show ?thesis
    by (simp add: afterClick_events afterFailed_issued)
qed

end
